theory Spec2Isabelle
  imports Complex_Main
begin

section \<open>Data model (models.py)\<close>

text \<open>
  The Django models are rows of tables. A table is the list of its rows in the order a
  query returns them. Foreign keys are stored as the primary key of the row they point to.
  Floating-point numbers (face encodings, distances, confidence scores) are modelled as
  reals; timestamps as natural numbers.
\<close>

type_synonym encoding = "real list"
type_synonym bytes = "nat list"
type_synonym image = "nat list"

datatype angle = Front | Left | Right

datatype session_status = Active | Completed | Cancelled

datatype attendance_status = Present | Absent

record Student =
  student_id :: string
  student_course :: string
  student_is_active :: bool

record FaceImage =
  fi_id :: nat
  fi_student :: string
  fi_angle :: angle
  fi_image :: image
  fi_face_encoding :: "bytes option"
  fi_is_active :: bool

record AttendanceSession =
  session_id :: nat
  session_course :: string
  session_status :: session_status
  session_start_time :: nat
  session_end_time :: nat

record SessionLog =
  log_id :: nat
  log_session :: nat
  log_student :: string
  log_status :: attendance_status
  log_recognized_at :: "nat option"
  log_confidence_score :: "real option"
  log_recognized_image :: "bytes option"

record db =
  students :: "Student list"
  face_images :: "FaceImage list"
  session_logs :: "SessionLog list"
  next_face_image_id :: nat
  next_session_log_id :: nat

datatype exn = DoesNotExist | MultipleObjectsReturned | IntegrityError | LibraryError

text \<open>
  The libraries the service calls (face_recognition, cv2, pickle) are not part of the
  repository. Their results are taken as parameters; \<open>None\<close> stands for a raised
  exception.
\<close>

record extern =
  load_image_file :: "image \<Rightarrow> image option"
  face_encodings :: "image \<Rightarrow> encoding list option"
  imencode :: "image \<Rightarrow> (bool \<times> bytes) option"
  pickle_dumps :: "encoding \<Rightarrow> bytes"
  pickle_loads :: "bytes \<Rightarrow> encoding option"

record FaceRecognitionService =
  tolerance :: real

definition init_service :: FaceRecognitionService where
  "init_service = \<lparr>tolerance = 6 / 10\<rparr>"

section \<open>The matcher (recognize_face_from_frame)\<close>

text \<open>
  \<open>face_recognition.face_distance(known, q)\<close> is the Euclidean norm of \<open>e - q\<close> for every
  known encoding \<open>e\<close>, and the empty array when there is none.
\<close>

definition euclidean :: "encoding \<Rightarrow> encoding \<Rightarrow> real" where
  "euclidean e q = sqrt (\<Sum>(a, b) \<leftarrow> zip e q. (a - b)\<^sup>2)"

definition face_distance :: "encoding list \<Rightarrow> encoding \<Rightarrow> real list" where
  "face_distance known_encodings face_encoding =
     map (\<lambda>e. euclidean e face_encoding) known_encodings"

text \<open>\<open>np.argmin\<close>: the index of the first occurrence of the least element.\<close>

fun argmin_from :: "nat \<Rightarrow> real \<Rightarrow> nat \<Rightarrow> real list \<Rightarrow> nat" where
  "argmin_from best v i [] = best"
| "argmin_from best v i (d # ds) =
     (if d < v then argmin_from i d (Suc i) ds else argmin_from best v (Suc i) ds)"

definition argmin :: "real list \<Rightarrow> nat" where
  "argmin ds = (case ds of [] \<Rightarrow> 0 | d # ds' \<Rightarrow> argmin_from 0 d 1 ds')"

text \<open>
  The comparison step of \<open>recognize_face_from_frame\<close>, from the first detected face
  encoding on. An index error on \<open>known_student_ids\<close> is caught by the enclosing
  \<open>except\<close> and gives \<open>(None, None)\<close>.
\<close>

definition compare_known ::
  "FaceRecognitionService \<Rightarrow> encoding \<Rightarrow> encoding list \<Rightarrow> string list
     \<Rightarrow> string option \<times> real option" where
  "compare_known svc face_encoding known_encodings known_student_ids =
     (let face_distances = face_distance known_encodings face_encoding in
      if length face_distances > 0 then
        (let best_match_index = argmin face_distances;
             confidence = 1 - face_distances ! best_match_index in
         if face_distances ! best_match_index \<le> tolerance svc then
           (if best_match_index < length known_student_ids
            then (Some (known_student_ids ! best_match_index), Some confidence)
            else (None, None))
         else (None, None))
      else (None, None))"

definition recognize_face_from_frame ::
  "extern \<Rightarrow> FaceRecognitionService \<Rightarrow> image \<Rightarrow> encoding list \<Rightarrow> string list
     \<Rightarrow> string option \<times> real option" where
  "recognize_face_from_frame ext svc frame known_encodings known_student_ids =
     (case face_encodings ext frame of
        None \<Rightarrow> (None, None)
      | Some [] \<Rightarrow> (None, None)
      | Some (face_encoding # _) \<Rightarrow>
          compare_known svc face_encoding known_encodings known_student_ids)"


text \<open>The first index of a least element.\<close>

definition first_min :: "real list \<Rightarrow> nat \<Rightarrow> bool" where
  "first_min xs r \<longleftrightarrow>
     r < length xs \<and> (\<forall>j < length xs. xs ! r \<le> xs ! j) \<and> (\<forall>j < r. xs ! r < xs ! j)"

section \<open>Enrollment (encode_face, save_student_face_images)\<close>

definition encode_face :: "extern \<Rightarrow> image \<Rightarrow> encoding option" where
  "encode_face ext image_path =
     (case load_image_file ext image_path of
        None \<Rightarrow> None
      | Some img \<Rightarrow>
          (case face_encodings ext img of
             None \<Rightarrow> None
           | Some [] \<Rightarrow> None
           | Some (e # _) \<Rightarrow> Some e))"

datatype enroll_error = NoFaceDetected angle | ErrorSaving angle

record enroll_results =
  success :: bool
  images :: "(angle \<times> FaceImage) list"
  errors :: "enroll_error list"

text \<open>
  \<open>FaceImage.objects.create\<close>: a new active row with the next automatic id and no
  encoding. The default ordering of the table is most recent first, so the row is put
  at the head. The row refers to a student; without that student the insert raises.
\<close>

definition FaceImage_create :: "db \<Rightarrow> Student \<Rightarrow> angle \<Rightarrow> image \<Rightarrow> db \<times> (exn + FaceImage)" where
  "FaceImage_create d student a image_file =
     (if student_id student \<in> student_id ` set (students d) then
        (let face_image = \<lparr>fi_id = next_face_image_id d, fi_student = student_id student,
                            fi_angle = a, fi_image = image_file, fi_face_encoding = None,
                            fi_is_active = True\<rparr>
         in (d\<lparr>face_images := face_image # face_images d,
                next_face_image_id := Suc (next_face_image_id d)\<rparr>, Inr face_image))
      else (d, Inl IntegrityError))"

definition FaceImage_save :: "db \<Rightarrow> FaceImage \<Rightarrow> db" where
  "FaceImage_save d face_image =
     d\<lparr>face_images := map (\<lambda>f. if fi_id f = fi_id face_image then face_image else f)
                            (face_images d)\<rparr>"

definition FaceImage_delete :: "db \<Rightarrow> FaceImage \<Rightarrow> db" where
  "FaceImage_delete d face_image =
     d\<lparr>face_images := filter (\<lambda>f. fi_id f \<noteq> fi_id face_image) (face_images d)\<rparr>"

text \<open>The body of the loop over the three angles.\<close>

definition save_angle ::
  "extern \<Rightarrow> Student \<Rightarrow> db \<times> enroll_results \<Rightarrow> angle \<times> image \<Rightarrow> db \<times> enroll_results" where
  "save_angle ext student st item =
     (case (st, item) of ((d, results), (a, image_file)) \<Rightarrow>
        (case FaceImage_create d student a image_file of
           (d1, Inl e) \<Rightarrow>
             (d1, results\<lparr>errors := errors results @ [ErrorSaving a], success := False\<rparr>)
         | (d1, Inr face_image) \<Rightarrow>
             (case encode_face ext (fi_image face_image) of
                Some enc \<Rightarrow>
                  (let face_image' = face_image\<lparr>fi_face_encoding := Some (pickle_dumps ext enc)\<rparr>
                   in (FaceImage_save d1 face_image',
                       results\<lparr>images := images results @ [(a, face_image')]\<rparr>))
              | None \<Rightarrow>
                  (FaceImage_delete d1 face_image,
                   results\<lparr>errors := errors results @ [NoFaceDetected a],
                           success := False\<rparr>))))"

definition save_student_face_images ::
  "extern \<Rightarrow> db \<Rightarrow> Student \<Rightarrow> image \<Rightarrow> image \<Rightarrow> image \<Rightarrow> db \<times> enroll_results" where
  "save_student_face_images ext d student front_image left_image right_image =
     foldl (save_angle ext student)
       (d, \<lparr>success = True, images = [], errors = []\<rparr>)
       [(Front, front_image), (Left, left_image), (Right, right_image)]"

text \<open>A sequence of enrollments, each a call of \<open>save_student_face_images\<close>.\<close>

fun enroll_sequence :: "extern \<Rightarrow> db \<Rightarrow> (Student \<times> image \<times> image \<times> image) list \<Rightarrow> db" where
  "enroll_sequence ext d [] = d"
| "enroll_sequence ext d ((student, f, l, r) # reqs) =
     enroll_sequence ext (fst (save_student_face_images ext d student f l r)) reqs"

definition record_count :: "db \<Rightarrow> string \<Rightarrow> angle \<Rightarrow> nat" where
  "record_count d sid a =
     length (filter (\<lambda>f. fi_student f = sid \<and> fi_angle f = a) (face_images d))"

definition active_count :: "db \<Rightarrow> string \<Rightarrow> angle \<Rightarrow> nat" where
  "active_count d sid a =
     length (filter (\<lambda>f. fi_student f = sid \<and> fi_angle f = a \<and> fi_is_active f) (face_images d))"

text \<open>Automatic ids are fresh: every stored id is below the next one.\<close>

definition face_ids_fresh :: "db \<Rightarrow> bool" where
  "face_ids_fresh d \<longleftrightarrow> list_all (\<lambda>f. fi_id f < next_face_image_id d) (face_images d)"

section \<open>The known set (load_known_faces)\<close>

definition Student_find :: "db \<Rightarrow> string \<Rightarrow> Student option" where
  "Student_find d sid = find (\<lambda>s. student_id s = sid) (students d)"

text \<open>
  The query: active front images joined with their active student, restricted to a
  course when one is given.
\<close>

definition known_faces_query :: "db \<Rightarrow> string option \<Rightarrow> FaceImage list" where
  "known_faces_query d course =
     filter (\<lambda>f. fi_angle f = Front \<and> fi_is_active f \<and>
               (case Student_find d (fi_student f) of
                  None \<Rightarrow> False
                | Some s \<Rightarrow> student_is_active s \<and>
                    (case course of None \<Rightarrow> True | Some c \<Rightarrow> student_course s = c)))
       (face_images d)"

fun load_loop ::
  "extern \<Rightarrow> FaceImage list \<Rightarrow> encoding list \<times> string list \<Rightarrow> encoding list \<times> string list" where
  "load_loop ext [] acc = acc"
| "load_loop ext (face_img # rest) (known_encodings, known_student_ids) =
     (case fi_face_encoding face_img of
        None \<Rightarrow> load_loop ext rest (known_encodings, known_student_ids)
      | Some b \<Rightarrow>
          if b = [] then load_loop ext rest (known_encodings, known_student_ids)
          else (case pickle_loads ext b of
                  None \<Rightarrow> load_loop ext rest (known_encodings, known_student_ids)
                | Some enc \<Rightarrow>
                    load_loop ext rest
                      (known_encodings @ [enc], known_student_ids @ [fi_student face_img])))"

definition load_known_faces ::
  "extern \<Rightarrow> db \<Rightarrow> string option \<Rightarrow> encoding list \<times> string list" where
  "load_known_faces ext d course = load_loop ext (known_faces_query d course) ([], [])"

definition loadable :: "extern \<Rightarrow> FaceImage \<Rightarrow> bool" where
  "loadable ext f =
     (case fi_face_encoding f of
        None \<Rightarrow> False
      | Some b \<Rightarrow> b \<noteq> [] \<and> pickle_loads ext b \<noteq> None)"

section \<open>Attendance records (SessionLog, mark_attendance, initialize_session_logs)\<close>

text \<open>\<open>Student.objects.get(student_id=...)\<close> on the primary key.\<close>

definition Student_get :: "db \<Rightarrow> string \<Rightarrow> exn + Student" where
  "Student_get d sid =
     (case Student_find d sid of None \<Rightarrow> Inl DoesNotExist | Some s \<Rightarrow> Inr s)"

text \<open>
  \<open>SessionLog.objects.get_or_create(session=, student=, defaults={'status': 'absent'})\<close>.
\<close>

definition get_or_create ::
  "db \<Rightarrow> AttendanceSession \<Rightarrow> Student \<Rightarrow> db \<times> (exn + SessionLog \<times> bool)" where
  "get_or_create d session student =
     (case filter (\<lambda>l. log_session l = session_id session \<and> log_student l = student_id student)
             (session_logs d) of
        [] \<Rightarrow>
          (let l = \<lparr>log_id = next_session_log_id d, log_session = session_id session,
                    log_student = student_id student, log_status = Absent,
                    log_recognized_at = None, log_confidence_score = None,
                    log_recognized_image = None\<rparr>
           in (d\<lparr>session_logs := session_logs d @ [l],
                  next_session_log_id := Suc (next_session_log_id d)\<rparr>, Inr (l, True)))
      | [l] \<Rightarrow> (d, Inr (l, False))
      | _ \<Rightarrow> (d, Inl MultipleObjectsReturned))"

definition SessionLog_save :: "db \<Rightarrow> SessionLog \<Rightarrow> db" where
  "SessionLog_save d l =
     d\<lparr>session_logs := map (\<lambda>x. if log_id x = log_id l then l else x) (session_logs d)\<rparr>"

text \<open>
  \<open>SessionLog.mark_present\<close>. The tests \<open>if confidence:\<close> and \<open>if image:\<close> are Python
  truth tests: \<open>None\<close>, the number 0 and empty bytes do not pass them.
\<close>

definition mark_present ::
  "nat \<Rightarrow> db \<Rightarrow> SessionLog \<Rightarrow> real option \<Rightarrow> bytes option \<Rightarrow> db \<times> SessionLog" where
  "mark_present now d self confidence img =
     (let s1 = self\<lparr>log_status := Present, log_recognized_at := Some now\<rparr>;
          s2 = (case confidence of
                  Some c \<Rightarrow> if c \<noteq> 0 then s1\<lparr>log_confidence_score := Some c\<rparr> else s1
                | None \<Rightarrow> s1);
          s3 = (case img of
                  Some i \<Rightarrow> if i \<noteq> [] then s2\<lparr>log_recognized_image := Some i\<rparr> else s2
                | None \<Rightarrow> s2)
      in (SessionLog_save d s3, s3))"

text \<open>
  The \<open>try\<close> block of \<open>mark_attendance\<close>, with the exception it ends in, if any, and the
  store as the statements before the exception left it.
\<close>

definition mark_attendance_try ::
  "extern \<Rightarrow> nat \<Rightarrow> db \<Rightarrow> AttendanceSession \<Rightarrow> string \<Rightarrow> real option \<Rightarrow> image option
     \<Rightarrow> db \<times> (exn + SessionLog)" where
  "mark_attendance_try ext now d session sid confidence frame =
     (case Student_get d sid of
        Inl e \<Rightarrow> (d, Inl e)
      | Inr student \<Rightarrow>
          (case get_or_create d session student of
             (d1, Inl e) \<Rightarrow> (d1, Inl e)
           | (d1, Inr (session_log, created)) \<Rightarrow>
               (case frame of
                  None \<Rightarrow>
                    (case mark_present now d1 session_log confidence None of
                       (d2, l) \<Rightarrow> (d2, Inr l))
                | Some fr \<Rightarrow>
                    (case imencode ext fr of
                       None \<Rightarrow> (d1, Inl LibraryError)
                     | Some (ok, buffer) \<Rightarrow>
                         (let session_log' =
                                (if ok then session_log\<lparr>log_recognized_image := Some buffer\<rparr>
                                 else session_log)
                          in (case mark_present now d1 session_log' confidence None of
                                (d2, l) \<Rightarrow> (d2, Inr l)))))))"

text \<open>
  \<open>mark_attendance\<close>: both \<open>except\<close> clauses print a message and return \<open>None\<close>.
\<close>

definition mark_attendance ::
  "extern \<Rightarrow> nat \<Rightarrow> db \<Rightarrow> AttendanceSession \<Rightarrow> string \<Rightarrow> real option \<Rightarrow> image option
     \<Rightarrow> db \<times> SessionLog option" where
  "mark_attendance ext now d session sid confidence frame =
     (case mark_attendance_try ext now d session sid confidence frame of
        (d', Inl DoesNotExist) \<Rightarrow> (d', None)
      | (d', Inl _) \<Rightarrow> (d', None)
      | (d', Inr l) \<Rightarrow> (d', Some l))"

fun initialize_loop ::
  "db \<Rightarrow> AttendanceSession \<Rightarrow> Student list \<Rightarrow> SessionLog list \<Rightarrow> db \<times> (exn + SessionLog list)" where
  "initialize_loop d session [] logs = (d, Inr logs)"
| "initialize_loop d session (student # rest) logs =
     (case get_or_create d session student of
        (d1, Inl e) \<Rightarrow> (d1, Inl e)
      | (d1, Inr (l, created)) \<Rightarrow> initialize_loop d1 session rest (logs @ [l]))"

definition initialize_session_logs ::
  "db \<Rightarrow> AttendanceSession \<Rightarrow> db \<times> (exn + SessionLog list)" where
  "initialize_session_logs d session =
     initialize_loop d session (filter student_is_active (students d)) []"

text \<open>
  The pair that \<open>unique_together\<close> of \<open>SessionLog\<close> names, and a store that respects
  it.
\<close>

definition log_key :: "SessionLog \<Rightarrow> nat \<times> string" where
  "log_key l = (log_session l, log_student l)"

definition logs_unique :: "db \<Rightarrow> bool" where
  "logs_unique d \<longleftrightarrow> distinct (map log_key (session_logs d))"

section \<open>Sessions (AttendanceSession)\<close>

definition is_active :: "AttendanceSession \<Rightarrow> nat \<Rightarrow> bool" where
  "is_active self now \<longleftrightarrow>
     session_status self = Active \<and> session_start_time self \<le> now \<and> now \<le> session_end_time self"

record statistics =
  total_students :: int
  present_count :: int
  absent_count :: int
  attendance_percentage :: real

definition get_attendance_statistics :: "db \<Rightarrow> AttendanceSession \<Rightarrow> statistics" where
  "get_attendance_statistics d self =
     (let total = int (length (filter (\<lambda>s. student_is_active s \<and>
                                            student_course s = session_course self) (students d)));
          present = int (length (filter (\<lambda>l. log_session l = session_id self \<and>
                                              log_status l = Present) (session_logs d)));
          absent = total - present
      in \<lparr>total_students = total, present_count = present, absent_count = absent,
          attendance_percentage =
            (if total > 0 then real_of_int present / real_of_int total * 100 else 0)\<rparr>)"

section \<open>The streaming controller (process_video_stream)\<close>

text \<open>
  One iteration of the loop sees: the clock when \<open>session.is_active()\<close> is asked, the
  frame that \<open>cap.read()\<close> returns, the clock when the record is stamped, and whether
  the key \<open>q\<close> is pressed. The video source is the list of these; the end of the list
  is \<open>cap.read()\<close> returning no frame.
\<close>

record tick =
  tick_now :: nat
  tick_frame :: image
  tick_mark_now :: nat
  tick_key_q :: bool

text \<open>
  The state of a run: the store, the set \<open>recognized_students\<close>, and (for the
  statements below) the list of identities on which \<open>SessionLog.mark_present\<close> ran, in
  order. \<open>mark_present\<close> is the last step of \<open>mark_attendance\<close>, which returns a log
  exactly when it got there.
\<close>

record run_state =
  run_db :: db
  recognized_students :: "string set"
  marked :: "string list"

definition stream_known_faces :: "extern \<Rightarrow> db \<Rightarrow> AttendanceSession \<Rightarrow> encoding list \<times> string list" where
  "stream_known_faces ext d session = load_known_faces ext d None"

definition stream_step ::
  "extern \<Rightarrow> FaceRecognitionService \<Rightarrow> AttendanceSession \<Rightarrow> encoding list \<Rightarrow> string list
     \<Rightarrow> tick \<Rightarrow> run_state \<Rightarrow> run_state" where
  "stream_step ext svc session known_encodings known_student_ids t st =
     (case recognize_face_from_frame ext svc (tick_frame t) known_encodings known_student_ids of
        (Some sid, confidence) \<Rightarrow>
          if sid \<noteq> [] \<and> sid \<notin> recognized_students st then
            (case mark_attendance ext (tick_mark_now t) (run_db st) session sid confidence
                    (Some (tick_frame t)) of
               (d', Some session_log) \<Rightarrow>
                 st\<lparr>run_db := d',
                    recognized_students := insert sid (recognized_students st),
                    marked := marked st @ [sid]\<rparr>
             | (d', None) \<Rightarrow> st\<lparr>run_db := d'\<rparr>)
          else st
      | (None, confidence) \<Rightarrow> st)"

fun stream_loop ::
  "extern \<Rightarrow> FaceRecognitionService \<Rightarrow> AttendanceSession \<Rightarrow> encoding list \<Rightarrow> string list
     \<Rightarrow> tick list \<Rightarrow> run_state \<Rightarrow> run_state" where
  "stream_loop ext svc session known_encodings known_student_ids [] st = st"
| "stream_loop ext svc session known_encodings known_student_ids (t # ts) st =
     (if is_active session (tick_now t) then
        (let st' = stream_step ext svc session known_encodings known_student_ids t st
         in if tick_key_q t then st'
            else stream_loop ext svc session known_encodings known_student_ids ts st')
      else st)"

definition process_video_stream ::
  "extern \<Rightarrow> FaceRecognitionService \<Rightarrow> db \<Rightarrow> AttendanceSession \<Rightarrow> tick list \<Rightarrow> run_state" where
  "process_video_stream ext svc d session video_source =
     (case stream_known_faces ext d session of
        (known_encodings, known_student_ids) \<Rightarrow>
          if length known_encodings = 0
          then \<lparr>run_db = d, recognized_students = {}, marked = []\<rparr>
          else stream_loop ext svc session known_encodings known_student_ids video_source
                 \<lparr>run_db = d, recognized_students = {}, marked = []\<rparr>)"

text \<open>The invariant of a run: each identity is marked once, and the marked are the seen.\<close>

definition run_inv :: "run_state \<Rightarrow> bool" where
  "run_inv st \<longleftrightarrow> distinct (marked st) \<and> set (marked st) = recognized_students st"

section \<open>Example stores\<close>

text \<open>
  A stand-in for the libraries: an image with no pixel has no face, any other image has
  one face whose encoding is its pixels; encoding a frame to JPEG raises on the frame
  \<open>[99]\<close>; a blob containing 255 does not unpickle.
\<close>

definition ext0 :: extern where
  "ext0 = \<lparr>load_image_file = Some,
           face_encodings = (\<lambda>img. if img = [] then Some [] else Some [map real img]),
           imencode = (\<lambda>fr. if fr = [99] then None else Some (True, fr)),
           pickle_dumps = map (\<lambda>x. nat \<lfloor>x\<rfloor>),
           pickle_loads = (\<lambda>b. if 255 \<in> set b then None else Some (map real b))\<rparr>"

definition alice :: Student where
  "alice = \<lparr>student_id = ''S1'', student_course = ''COET'', student_is_active = True\<rparr>"

definition bob :: Student where
  "bob = \<lparr>student_id = ''S2'', student_course = ''BIT'', student_is_active = True\<rparr>"

definition carol :: Student where
  "carol = \<lparr>student_id = ''S3'', student_course = ''COET'', student_is_active = True\<rparr>"

definition coet_session :: AttendanceSession where
  "coet_session = \<lparr>session_id = 1, session_course = ''COET'', session_status = Active,
                   session_start_time = 0, session_end_time = 100\<rparr>"

definition db_start :: db where
  "db_start = \<lparr>students = [alice, bob], face_images = [], session_logs = [],
               next_face_image_id = 1, next_session_log_id = 1\<rparr>"

definition db_two :: db where
  "db_two = \<lparr>students = [alice, bob],
             face_images =
               [\<lparr>fi_id = 2, fi_student = ''S2'', fi_angle = Front, fi_image = [2],
                  fi_face_encoding = Some [2], fi_is_active = True\<rparr>,
                \<lparr>fi_id = 1, fi_student = ''S1'', fi_angle = Front, fi_image = [0],
                  fi_face_encoding = Some [0], fi_is_active = True\<rparr>],
             session_logs = [], next_face_image_id = 3, next_session_log_id = 1\<rparr>"

definition db_stats :: db where
  "db_stats = \<lparr>students = [alice, bob, carol], face_images = [],
               session_logs =
                 [\<lparr>log_id = 1, log_session = 1, log_student = ''S1'', log_status = Present,
                   log_recognized_at = Some 5, log_confidence_score = Some (9 / 10),
                   log_recognized_image = None\<rparr>,
                  \<lparr>log_id = 2, log_session = 1, log_student = ''S3'', log_status = Absent,
                   log_recognized_at = None, log_confidence_score = None,
                   log_recognized_image = None\<rparr>],
               next_face_image_id = 1, next_session_log_id = 3\<rparr>"

definition frame_of :: "image \<Rightarrow> tick" where
  "frame_of img = \<lparr>tick_now = 1, tick_frame = img, tick_mark_now = 1, tick_key_q = False\<rparr>"

section \<open>Properties of the matcher\<close>


lemma argmin_from_first_min:
  "length pre = i \<Longrightarrow> best < i \<Longrightarrow> pre ! best = v \<Longrightarrow> first_min pre best
     \<Longrightarrow> first_min (pre @ ds) (argmin_from best v i ds)"
proof (induction ds arbitrary: pre i best v)
  case Nil
  then show ?case by simp
next
  case (Cons d ds)
  show ?case
  proof (cases "d < v")
    case True
    have "first_min (pre @ [d]) i"
      using Cons.prems True unfolding first_min_def
      by (auto simp: nth_append less_Suc_eq dest: spec)
    from Cons.IH[of "pre @ [d]" "Suc i" i d, OF _ _ _ this] Cons.prems True
    show ?thesis by (auto simp: nth_append)
  next
    case False
    have "first_min (pre @ [d]) best"
      using Cons.prems False unfolding first_min_def
      by (auto simp: nth_append less_Suc_eq)
    from Cons.IH[of "pre @ [d]" "Suc i" best v, OF _ _ _ this] Cons.prems False
    show ?thesis by (auto simp: nth_append)
  qed
qed

lemma argmin_first_min: "ds \<noteq> [] \<Longrightarrow> first_min ds (argmin ds)"
proof (cases ds)
  case Nil
  assume "ds \<noteq> []"
  with Nil show ?thesis by simp
next
  case (Cons d ds')
  have "first_min [d] 0" by (simp add: first_min_def)
  from argmin_from_first_min[of "[d]" 1 0 d ds', OF _ _ _ this]
  show ?thesis using Cons by (simp add: argmin_def)
qed

lemma argmin_less_length: "ds \<noteq> [] \<Longrightarrow> argmin ds < length ds"
  using argmin_first_min[of ds] by (simp add: first_min_def)

lemma argmin_is_Min: "ds \<noteq> [] \<Longrightarrow> ds ! argmin ds = Min (set ds)"
proof -
  assume ne: "ds \<noteq> []"
  then have fm: "first_min ds (argmin ds)" by (rule argmin_first_min)
  show ?thesis
  proof (rule sym, rule Min_eqI)
    show "finite (set ds)" by simp
    show "ds ! argmin ds \<in> set ds" using fm by (simp add: first_min_def)
    fix y assume "y \<in> set ds"
    then obtain j where "j < length ds" "ds ! j = y" by (auto simp: in_set_conv_nth)
    with fm show "ds ! argmin ds \<le> y" by (auto simp: first_min_def)
  qed
qed

lemma compare_known_first_min:
  assumes "length known_student_ids = length known_encodings"
  shows "(known_encodings = [] \<longrightarrow>
            compare_known svc q known_encodings known_student_ids = (None, None)) \<and>
         (known_encodings \<noteq> [] \<longrightarrow>
            (\<exists>i < length known_encodings.
               (\<forall>j < length known_encodings.
                  euclidean (known_encodings ! i) q \<le> euclidean (known_encodings ! j) q) \<and>
               (\<forall>j < i. euclidean (known_encodings ! i) q < euclidean (known_encodings ! j) q) \<and>
               compare_known svc q known_encodings known_student_ids =
                 (if euclidean (known_encodings ! i) q \<le> tolerance svc
                  then (Some (known_student_ids ! i), Some (1 - euclidean (known_encodings ! i) q))
                  else (None, None))))"
proof (intro conjI impI)
  assume "known_encodings = []"
  then show "compare_known svc q known_encodings known_student_ids = (None, None)"
    by (simp add: compare_known_def face_distance_def)
next
  assume ne: "known_encodings \<noteq> []"
  define ds where "ds = face_distance known_encodings q"
  define i where "i = argmin ds"
  have len: "length ds = length known_encodings"
    by (simp add: ds_def face_distance_def)
  with ne have dne: "ds \<noteq> []" by auto
  then have fm: "first_min ds i" unfolding i_def by (rule argmin_first_min)
  then have i_lt: "i < length known_encodings" using len by (simp add: first_min_def)
  have nth: "\<And>j. j < length known_encodings \<Longrightarrow> ds ! j = euclidean (known_encodings ! j) q"
    by (simp add: ds_def face_distance_def)
  have le: "\<forall>j < length known_encodings.
              euclidean (known_encodings ! i) q \<le> euclidean (known_encodings ! j) q"
    using fm i_lt len nth by (auto simp: first_min_def)
  have lt: "\<forall>j < i. euclidean (known_encodings ! i) q < euclidean (known_encodings ! j) q"
    using fm i_lt len nth by (auto simp: first_min_def)
  have res: "compare_known svc q known_encodings known_student_ids =
               (if euclidean (known_encodings ! i) q \<le> tolerance svc
                then (Some (known_student_ids ! i), Some (1 - euclidean (known_encodings ! i) q))
                else (None, None))"
    using dne i_lt assms nth[OF i_lt]
    by (simp add: compare_known_def Let_def ds_def[symmetric] i_def[symmetric])
  from i_lt le lt res
  show "\<exists>i < length known_encodings.
          (\<forall>j < length known_encodings.
             euclidean (known_encodings ! i) q \<le> euclidean (known_encodings ! j) q) \<and>
          (\<forall>j < i. euclidean (known_encodings ! i) q < euclidean (known_encodings ! j) q) \<and>
          compare_known svc q known_encodings known_student_ids =
            (if euclidean (known_encodings ! i) q \<le> tolerance svc
             then (Some (known_student_ids ! i), Some (1 - euclidean (known_encodings ! i) q))
             else (None, None))"
    by blast
qed

lemma recognize_first_face:
  "face_encodings ext frame = Some (q # rest) \<Longrightarrow>
     recognize_face_from_frame ext svc frame known_encodings known_student_ids =
       compare_known svc q known_encodings known_student_ids"
  by (simp add: recognize_face_from_frame_def)

text \<open>
  C1. For a frame whose first detected face has encoding \<open>q\<close>, and parallel lists of
  known encodings and identities (all encodings of the dimension of \<open>q\<close>): with no known
  encoding the result is no-match; otherwise there is an index whose Euclidean distance
  to \<open>q\<close> is least, and strictly less than that of every earlier index (first occurrence
  wins); the result is the identity at that index with confidence one minus that
  distance when the distance is at most the tolerance, and no-match otherwise.
\<close>

theorem recognize_nearest:
  assumes "face_encodings ext frame = Some (q # rest)"
    and "length known_student_ids = length known_encodings"
    and "\<forall>e \<in> set known_encodings. length e = length q"
  shows "(known_encodings = [] \<longrightarrow>
            recognize_face_from_frame ext svc frame known_encodings known_student_ids
              = (None, None)) \<and>
         (known_encodings \<noteq> [] \<longrightarrow>
            (\<exists>i < length known_encodings.
               (\<forall>j < length known_encodings.
                  euclidean (known_encodings ! i) q \<le> euclidean (known_encodings ! j) q) \<and>
               (\<forall>j < i. euclidean (known_encodings ! i) q < euclidean (known_encodings ! j) q) \<and>
               recognize_face_from_frame ext svc frame known_encodings known_student_ids =
                 (if euclidean (known_encodings ! i) q \<le> tolerance svc
                  then (Some (known_student_ids ! i), Some (1 - euclidean (known_encodings ! i) q))
                  else (None, None))))"
  unfolding recognize_first_face[OF assms(1)]
  by (rule compare_known_first_min[OF assms(2)])

theorem recognize_nearest_witness:
  "face_encodings ext0 [0] = Some ([0] # []) \<and>
   length [''A'', ''B''] = length [[1], [- 1 :: real]] \<and>
   length [1 :: real] = length [0 :: real] \<and> length [- 1 :: real] = length [0 :: real] \<and>
   recognize_face_from_frame ext0 \<lparr>tolerance = 1\<rparr> [0] [[1], [- 1]] [''A'', ''B'']
     = (Some ''A'', Some 0)"
proof -
  have h0: "face_encodings ext0 [0] = Some ([0] # [])" by (simp add: ext0_def)
  have h1: "length [''A'', ''B''] = length [[1], [- 1 :: real]]" by simp
  have h2: "\<forall>e \<in> set [[1], [- 1 :: real]]. length e = length [0 :: real]" by simp
  show ?thesis
    using h0 recognize_nearest[OF h0 h1 h2, of "\<lparr>tolerance = 1\<rparr>"]
    by (simp add: recognize_face_from_frame_def compare_known_def face_distance_def
          euclidean_def argmin_def)
qed

lemma compare_known_confidence:
  assumes r: "compare_known svc q known_encodings known_student_ids = (Some s, c)"
  shows "c = Some (1 - Min (set (face_distance known_encodings q)))"
proof -
  define ds where "ds = face_distance known_encodings q"
  from r have ne: "ds \<noteq> []"
    by (auto simp: compare_known_def ds_def split: if_splits)
  from r have "c = Some (1 - ds ! argmin ds)"
    by (auto simp: compare_known_def Let_def ds_def split: if_splits)
  with argmin_is_Min[OF ne] show ?thesis by (simp add: ds_def)
qed

text \<open>
  C9. On a successful match the confidence is exactly one minus the least Euclidean
  distance from the first detected face to the known encodings, with no clamping; and
  there is a frame, a known set and a tolerance with least distance above 1 and within
  the tolerance for which the confidence is negative.
\<close>

theorem confidence_unclamped:
  "(face_encodings ext frame = Some (q # rest) \<and>
    recognize_face_from_frame ext svc frame known_encodings known_student_ids = (Some s, c) \<longrightarrow>
      c = Some (1 - Min (set (face_distance known_encodings q)))) \<and>
   (\<exists>ext' svc' frame' q' rest' encs ids s' c'.
      face_encodings ext' frame' = Some (q' # rest') \<and>
      recognize_face_from_frame ext' svc' frame' encs ids = (Some s', Some c') \<and>
      1 < Min (set (face_distance encs q')) \<and>
      Min (set (face_distance encs q')) \<le> tolerance svc' \<and> c' < 0)"
proof (intro conjI impI)
  assume h: "face_encodings ext frame = Some (q # rest) \<and>
    recognize_face_from_frame ext svc frame known_encodings known_student_ids = (Some s, c)"
  then have "compare_known svc q known_encodings known_student_ids = (Some s, c)"
    by (auto simp: recognize_face_from_frame_def)
  then show "c = Some (1 - Min (set (face_distance known_encodings q)))"
    by (rule compare_known_confidence)
next
  have "face_encodings ext0 [0] = Some ([0] # []) \<and>
        recognize_face_from_frame ext0 \<lparr>tolerance = 2\<rparr> [0] [[2]] [''A'']
          = (Some ''A'', Some (- 1)) \<and>
        1 < Min (set (face_distance [[2]] [0])) \<and>
        Min (set (face_distance [[2]] [0])) \<le> tolerance \<lparr>tolerance = 2\<rparr> \<and> (- 1 :: real) < 0"
    by (simp add: ext0_def recognize_face_from_frame_def compare_known_def face_distance_def
          euclidean_def argmin_def)
  then show "\<exists>ext' svc' frame' q' rest' encs ids s' c'.
      face_encodings ext' frame' = Some (q' # rest') \<and>
      recognize_face_from_frame ext' svc' frame' encs ids = (Some s', Some c') \<and>
      1 < Min (set (face_distance encs q')) \<and>
      Min (set (face_distance encs q')) \<le> tolerance svc' \<and> c' < 0"
    by blast
qed

theorem confidence_unclamped_witness:
  "face_encodings ext0 [0] = Some ([0] # []) \<and>
   recognize_face_from_frame ext0 \<lparr>tolerance = 2\<rparr> [0] [[2]] [''A'']
     = (Some ''A'', Some (- 1)) \<and>
   Some (- 1 :: real) = Some (1 - Min (set (face_distance [[2]] [0])))"
proof -
  have ev: "face_encodings ext0 [0] = Some ([0] # []) \<and>
            recognize_face_from_frame ext0 \<lparr>tolerance = 2\<rparr> [0] [[2]] [''A'']
              = (Some ''A'', Some (- 1))"
    by (simp add: ext0_def recognize_face_from_frame_def compare_known_def face_distance_def
          euclidean_def argmin_def)
  from confidence_unclamped[of ext0 "[0]" "[0]" "[]" "\<lparr>tolerance = 2\<rparr>" "[[2]]" "[''A'']"
         "''A''" "Some (- 1)"] ev
  have "Some (- 1 :: real) = Some (1 - Min (set (face_distance [[2]] [0])))"
    by blast
  with ev show ?thesis by blast
qed

section \<open>Properties of enrollment\<close>

lemmas ex_defs = ext0_def alice_def bob_def coet_session_def db_start_def db_two_def db_stats_def carol_def frame_of_def
lemmas op_defs = save_student_face_images_def save_angle_def FaceImage_create_def FaceImage_save_def
  FaceImage_delete_def encode_face_def record_count_def active_count_def face_ids_fresh_def
  load_known_faces_def known_faces_query_def Student_find_def Student_get_def get_or_create_def
  SessionLog_save_def mark_present_def mark_attendance_try_def mark_attendance_def
  initialize_session_logs_def is_active_def get_attendance_statistics_def stream_known_faces_def
  stream_step_def process_video_stream_def recognize_face_from_frame_def compare_known_def
  face_distance_def euclidean_def argmin_def Let_def


text \<open>
  C3 (counterexample). Enrolling the same student twice, both times with success, leaves
  two active front records for that student.
\<close>

theorem enroll_twice_two_active:
  "success (snd (save_student_face_images ext0 db_start alice [0] [1] [2])) \<and>
   success (snd (save_student_face_images ext0
                  (fst (save_student_face_images ext0 db_start alice [0] [1] [2])) alice [0] [1] [2])) \<and>
   active_count (enroll_sequence ext0 db_start [(alice, [0], [1], [2]), (alice, [0], [1], [2])])
     ''S1'' Front = 2 \<and>
   \<not> active_count (enroll_sequence ext0 db_start [(alice, [0], [1], [2]), (alice, [0], [1], [2])])
     ''S1'' Front \<le> 1"
  by (simp add: ex_defs op_defs)

lemma fresh_map_id:
  "face_ids_fresh d \<Longrightarrow>
     map (\<lambda>f. if fi_id f = next_face_image_id d then x else f) (face_images d) = face_images d"
  by (rule map_idI) (auto simp: face_ids_fresh_def list_all_iff)

lemma fresh_filter_id:
  "face_ids_fresh d \<Longrightarrow>
     filter (\<lambda>f. fi_id f \<noteq> next_face_image_id d) (face_images d) = face_images d"
  by (auto simp: face_ids_fresh_def list_all_iff filter_id_conv)

lemma save_angle_shape:
  assumes fresh: "face_ids_fresh d"
    and step: "save_angle ext student (d, res) (a, img) = (d', res')"
  shows "\<exists>new. face_images d' = new @ face_images d \<and>
           list_all (\<lambda>f. fi_student f = student_id student \<and> fi_angle f = a \<and> fi_is_active f) new \<and>
           (success res' \<longleftrightarrow> success res \<and> length new = 1) \<and>
           (\<not> success res' \<longrightarrow> length new \<le> 1) \<and>
           face_ids_fresh d'"
proof (cases "student_id student \<in> student_id ` set (students d)")
  case False
  with step have "d' = d" "\<not> success res'"
    by (auto simp: save_angle_def FaceImage_create_def)
  with fresh show ?thesis by (intro exI[of _ "[]"]) simp
next
  case True
  show ?thesis
  proof (cases "encode_face ext img")
    case None
    with True step fresh have "face_images d' = face_images d" "\<not> success res'"
      "next_face_image_id d' = Suc (next_face_image_id d)"
      by (auto simp: save_angle_def FaceImage_create_def FaceImage_delete_def Let_def
            fresh_filter_id)
    with fresh have "face_images d' = [] @ face_images d" "\<not> success res'" "face_ids_fresh d'"
      by (auto simp: face_ids_fresh_def list_all_iff less_Suc_eq)
    then show ?thesis by (intro exI[of _ "[]"]) simp
  next
    case (Some enc)
    define row where "row = \<lparr>fi_id = next_face_image_id d, fi_student = student_id student,
                            fi_angle = a, fi_image = img,
                            fi_face_encoding = Some (pickle_dumps ext enc),
                            fi_is_active = True\<rparr>"
    from Some True step fresh have "face_images d' = [row] @ face_images d"
      "success res' = success res" "next_face_image_id d' = Suc (next_face_image_id d)"
      by (auto simp: save_angle_def FaceImage_create_def FaceImage_save_def Let_def
            fresh_map_id row_def)
    moreover from this fresh have "face_ids_fresh d'"
      by (auto simp: face_ids_fresh_def list_all_iff less_Suc_eq row_def)
    ultimately show ?thesis by (intro exI[of _ "[row]"]) (simp add: row_def)
  qed
qed


lemma save_student_shape:
  assumes fresh: "face_ids_fresh d"
    and call: "save_student_face_images ext d student f l r = (d', res)"
  shows "\<exists>n1 n2 n3. face_images d' = n3 @ n2 @ n1 @ face_images d \<and>
           list_all (\<lambda>x. fi_student x = student_id student \<and> fi_angle x = Front \<and> fi_is_active x) n1 \<and>
           list_all (\<lambda>x. fi_student x = student_id student \<and> fi_angle x = Left \<and> fi_is_active x) n2 \<and>
           list_all (\<lambda>x. fi_student x = student_id student \<and> fi_angle x = Right \<and> fi_is_active x) n3 \<and>
           (success res \<longrightarrow> length n1 = 1 \<and> length n2 = 1 \<and> length n3 = 1) \<and>
           face_ids_fresh d'"
proof -
  define r0 where "r0 = \<lparr>success = True, images = [], errors = []\<rparr>"
  obtain d1 r1 where s1: "save_angle ext student (d, r0) (Front, f) = (d1, r1)"
    by (cases "save_angle ext student (d, r0) (Front, f)")
  obtain d2 r2 where s2: "save_angle ext student (d1, r1) (Left, l) = (d2, r2)"
    by (cases "save_angle ext student (d1, r1) (Left, l)")
  obtain d3 r3 where s3: "save_angle ext student (d2, r2) (Right, r) = (d3, r3)"
    by (cases "save_angle ext student (d2, r2) (Right, r)")
  from call s1 s2 s3 have fin: "d' = d3" "res = r3"
    by (simp_all add: save_student_face_images_def r0_def)
  from save_angle_shape[OF fresh s1] obtain n1 where
    n1: "face_images d1 = n1 @ face_images d"
      "list_all (\<lambda>x. fi_student x = student_id student \<and> fi_angle x = Front \<and> fi_is_active x) n1"
      "success r1 \<longleftrightarrow> success r0 \<and> length n1 = 1" and f1: "face_ids_fresh d1"
    by blast
  from save_angle_shape[OF f1 s2] obtain n2 where
    n2: "face_images d2 = n2 @ face_images d1"
      "list_all (\<lambda>x. fi_student x = student_id student \<and> fi_angle x = Left \<and> fi_is_active x) n2"
      "success r2 \<longleftrightarrow> success r1 \<and> length n2 = 1" and f2: "face_ids_fresh d2"
    by blast
  from save_angle_shape[OF f2 s3] obtain n3 where
    n3: "face_images d3 = n3 @ face_images d2"
      "list_all (\<lambda>x. fi_student x = student_id student \<and> fi_angle x = Right \<and> fi_is_active x) n3"
      "success r3 \<longleftrightarrow> success r2 \<and> length n3 = 1" and f3: "face_ids_fresh d3"
    by blast
  have "face_images d' = n3 @ n2 @ n1 @ face_images d"
    using fin n1(1) n2(1) n3(1) by simp
  moreover have "success res \<longrightarrow> length n1 = 1 \<and> length n2 = 1 \<and> length n3 = 1"
    using fin n1(3) n2(3) n3(3) by blast
  ultimately show ?thesis using n1(2) n2(2) n3(2) f3 fin by blast
qed

lemma save_student_counts:
  assumes fresh: "face_ids_fresh d"
  shows "record_count d sid a \<le> record_count (fst (save_student_face_images ext d student f l r)) sid a \<and>
         active_count d sid a \<le> active_count (fst (save_student_face_images ext d student f l r)) sid a \<and>
         face_ids_fresh (fst (save_student_face_images ext d student f l r)) \<and>
         (\<exists>new. face_images (fst (save_student_face_images ext d student f l r)) = new @ face_images d) \<and>
         (success (snd (save_student_face_images ext d student f l r)) \<longrightarrow>
            record_count (fst (save_student_face_images ext d student f l r)) (student_id student) a
              = record_count d (student_id student) a + 1 \<and>
            active_count (fst (save_student_face_images ext d student f l r)) (student_id student) a
              = active_count d (student_id student) a + 1)"
proof -
  obtain d' res where call: "save_student_face_images ext d student f l r = (d', res)"
    by (cases "save_student_face_images ext d student f l r")
  from save_student_shape[OF fresh call] obtain n1 n2 n3 where
    sh: "face_images d' = n3 @ n2 @ n1 @ face_images d"
      "list_all (\<lambda>x. fi_student x = student_id student \<and> fi_angle x = Front \<and> fi_is_active x) n1"
      "list_all (\<lambda>x. fi_student x = student_id student \<and> fi_angle x = Left \<and> fi_is_active x) n2"
      "list_all (\<lambda>x. fi_student x = student_id student \<and> fi_angle x = Right \<and> fi_is_active x) n3"
      "success res \<longrightarrow> length n1 = 1 \<and> length n2 = 1 \<and> length n3 = 1"
      "face_ids_fresh d'"
    by blast
  have mono: "record_count d sid a \<le> record_count d' sid a" "active_count d sid a \<le> active_count d' sid a"
    using sh(1) by (simp_all add: record_count_def active_count_def)
  have ex: "\<exists>new. face_images d' = new @ face_images d"
    using sh(1) by (intro exI[of _ "n3 @ n2 @ n1"]) simp
  have exact: "record_count d' (student_id student) a = record_count d (student_id student) a + 1 \<and>
               active_count d' (student_id student) a = active_count d (student_id student) a + 1"
    if ok: "success res"
  proof -
    from ok sh(5) obtain x1 x2 x3 where xs: "n1 = [x1]" "n2 = [x2]" "n3 = [x3]"
      by (auto simp: length_Suc_conv)
    with sh(1-4) show ?thesis
      by (cases a) (simp_all add: record_count_def active_count_def)
  qed
  from mono ex exact sh(6) show ?thesis unfolding call by simp
qed

text \<open>
  C3 (as amended). In every sequence of enrollments, a repeated enrollment of an
  (identity, angle) leaves every earlier record stored and as it was, nothing is made
  inactive or deleted: the number of stored records of an (identity, angle) does not
  decrease, and neither does the number of active ones; a successful call adds exactly
  one stored, active record for each of the student's three angles, so the number of
  active records is not bounded by 1.
\<close>

theorem enroll_keeps_records:
  assumes "face_ids_fresh d"
  shows "record_count d sid a \<le> record_count (enroll_sequence ext d reqs) sid a \<and>
         active_count d sid a \<le> active_count (enroll_sequence ext d reqs) sid a \<and>
         (\<exists>new. face_images (enroll_sequence ext d reqs) = new @ face_images d) \<and>
         (success (snd (save_student_face_images ext d student f l r)) \<longrightarrow>
            record_count (fst (save_student_face_images ext d student f l r)) (student_id student) a
              = record_count d (student_id student) a + 1 \<and>
            active_count (fst (save_student_face_images ext d student f l r)) (student_id student) a
              = active_count d (student_id student) a + 1)"
proof -
  have seq: "face_ids_fresh d \<Longrightarrow>
         record_count d sid a \<le> record_count (enroll_sequence ext d reqs) sid a \<and>
         active_count d sid a \<le> active_count (enroll_sequence ext d reqs) sid a \<and>
         (\<exists>new. face_images (enroll_sequence ext d reqs) = new @ face_images d)"
  proof (induction reqs arbitrary: d)
    case Nil
    then show ?case by simp
  next
    case (Cons req reqs)
    obtain st i1 i2 i3 where req: "req = (st, i1, i2, i3)" by (cases req)
    define d1 where "d1 = fst (save_student_face_images ext d st i1 i2 i3)"
    from save_student_counts[OF Cons.prems, of sid a ext st i1 i2 i3]
    have one: "record_count d sid a \<le> record_count d1 sid a"
      "active_count d sid a \<le> active_count d1 sid a" "face_ids_fresh d1"
      "\<exists>new. face_images d1 = new @ face_images d"
      by (simp_all add: d1_def)
    from Cons.IH[OF one(3)]
    have rest: "record_count d1 sid a \<le> record_count (enroll_sequence ext d1 reqs) sid a"
      "active_count d1 sid a \<le> active_count (enroll_sequence ext d1 reqs) sid a"
      "\<exists>new. face_images (enroll_sequence ext d1 reqs) = new @ face_images d1"
      by simp_all
    from one(4) rest(3) obtain n1 n2 where
      "face_images d1 = n1 @ face_images d" "face_images (enroll_sequence ext d1 reqs) = n2 @ face_images d1"
      by blast
    then have "face_images (enroll_sequence ext d1 reqs) = (n2 @ n1) @ face_images d" by simp
    then have "\<exists>new. face_images (enroll_sequence ext d1 reqs) = new @ face_images d" by blast
    with one(1,2) rest(1,2) show ?case
      unfolding req by (simp add: d1_def[symmetric])
  qed
  from seq[OF assms] save_student_counts[OF assms, of "student_id student" a ext student f l r]
  show ?thesis by simp
qed


theorem enroll_keeps_records_witness:
  "face_ids_fresh db_start \<and>
   record_count db_start ''S1'' Front
     \<le> record_count (enroll_sequence ext0 db_start [(alice, [0], [1], [2])]) ''S1'' Front \<and>
   success (snd (save_student_face_images ext0 db_start alice [0] [1] [2])) \<and>
   active_count (fst (save_student_face_images ext0 db_start alice [0] [1] [2])) ''S1'' Front
     = active_count db_start ''S1'' Front + 1"
proof -
  have h: "face_ids_fresh db_start" by (simp add: ex_defs op_defs)
  show ?thesis
    using h enroll_keeps_records[OF h, of "''S1''" Front ext0 "[(alice, [0], [1], [2])]"
            alice "[0]" "[1]" "[2]"]
    by (simp add: ex_defs op_defs)
qed

section \<open>Properties of the known set\<close>

lemma load_loop_lengths:
  "length (fst acc) = length (snd acc) \<Longrightarrow>
     length (fst (load_loop ext rows acc)) = length (snd (load_loop ext rows acc))"
proof (induction rows arbitrary: acc)
  case Nil
  then show ?case by simp
next
  case (Cons f rows)
  obtain es ids where acc: "acc = (es, ids)" by (cases acc)
  with Cons.prems have eq: "length es = length ids" by simp
  show ?case
    unfolding acc
    using Cons.IH[of "(es, ids)"] Cons.IH[of "(es @ [e], ids @ [fi_student f])" for e] eq
    by (simp split: option.splits)
qed

lemma load_loop_count:
  "length (fst (load_loop ext rows acc)) = length (fst acc) + length (filter (loadable ext) rows)"
proof (induction rows arbitrary: acc)
  case Nil
  then show ?case by simp
next
  case (Cons f rows)
  obtain es ids where acc: "acc = (es, ids)" by (cases acc)
  show ?case
    unfolding acc
    using Cons.IH[of "(es, ids)"] Cons.IH[of "(es @ [e], ids @ [fi_student f])" for e]
    by (auto simp: loadable_def split: option.splits)
qed

text \<open>
  C10. For every store and course filter, \<open>load_known_faces\<close> returns two lists of the
  same length, one entry for each row of the query whose encoding is present, not empty
  and unpickles; so the index that \<open>argmin\<close> picks over the distances to the known
  encodings is within \<open>known_student_ids\<close>.
\<close>

theorem known_faces_parallel:
  "length (fst (load_known_faces ext d course)) = length (snd (load_known_faces ext d course)) \<and>
   length (fst (load_known_faces ext d course)) =
     length (filter (loadable ext) (known_faces_query d course)) \<and>
   (fst (load_known_faces ext d course) \<noteq> [] \<longrightarrow>
      argmin (face_distance (fst (load_known_faces ext d course)) q)
        < length (snd (load_known_faces ext d course)))"
proof (intro conjI impI)
  show len: "length (fst (load_known_faces ext d course)) = length (snd (load_known_faces ext d course))"
    unfolding load_known_faces_def by (rule load_loop_lengths) simp
  show "length (fst (load_known_faces ext d course)) =
     length (filter (loadable ext) (known_faces_query d course))"
    unfolding load_known_faces_def by (simp add: load_loop_count)
  assume "fst (load_known_faces ext d course) \<noteq> []"
  then have "face_distance (fst (load_known_faces ext d course)) q \<noteq> []"
    by (simp add: face_distance_def)
  from argmin_less_length[OF this] len
  show "argmin (face_distance (fst (load_known_faces ext d course)) q)
        < length (snd (load_known_faces ext d course))"
    by (simp add: face_distance_def)
qed

theorem known_faces_parallel_witness:
  "length (fst (load_known_faces ext0 db_two None)) = 2 \<and>
   length (snd (load_known_faces ext0 db_two None)) = 2 \<and>
   argmin (face_distance (fst (load_known_faces ext0 db_two None)) [0])
     < length (snd (load_known_faces ext0 db_two None))"
  using known_faces_parallel[of ext0 db_two None "[0]"]
  by (simp add: ex_defs op_defs)

section \<open>Properties of the statistics\<close>

lemma length_filter_card:
  "distinct xs \<Longrightarrow> length (filter P xs) = card {x \<in> set xs. P x}"
proof -
  assume "distinct xs"
  then have "distinct (filter P xs)" by simp
  then have "card (set (filter P xs)) = length (filter P xs)" by (rule distinct_card)
  then show ?thesis by simp
qed

text \<open>
  C6. With primary keys unique, the statistics of a session are: total, the number of
  active students of the session's course (whatever attendance records exist); present
  count, the number of the session's records in state present; absent count, total minus
  present count; percentage, 0 when the total is 0 and present count / total * 100
  otherwise.
\<close>

theorem statistics_counts:
  assumes "distinct (map student_id (students d))"
    and "distinct (map log_id (session_logs d))"
  shows "total_students (get_attendance_statistics d s) =
           int (card {x \<in> set (students d).
                  student_is_active x \<and> student_course x = session_course s}) \<and>
         present_count (get_attendance_statistics d s) =
           int (card {l \<in> set (session_logs d).
                  log_session l = session_id s \<and> log_status l = Present}) \<and>
         absent_count (get_attendance_statistics d s) =
           total_students (get_attendance_statistics d s)
             - present_count (get_attendance_statistics d s) \<and>
         attendance_percentage (get_attendance_statistics d s) =
           (if total_students (get_attendance_statistics d s) = 0 then 0
            else real_of_int (present_count (get_attendance_statistics d s))
                   / real_of_int (total_students (get_attendance_statistics d s)) * 100)"
proof -
  from assms(1) have ds: "distinct (students d)" by (rule distinct_map[THEN iffD1, THEN conjunct1])
  from assms(2) have dl: "distinct (session_logs d)" by (rule distinct_map[THEN iffD1, THEN conjunct1])
  show ?thesis
    by (simp add: get_attendance_statistics_def Let_def
          length_filter_card[OF ds, symmetric] length_filter_card[OF dl, symmetric])
qed

theorem statistics_counts_witness:
  "distinct (map student_id (students db_stats)) \<and>
   distinct (map log_id (session_logs db_stats)) \<and>
   get_attendance_statistics db_stats coet_session =
     \<lparr>total_students = 2, present_count = 1, absent_count = 1, attendance_percentage = 50\<rparr>"
proof -
  have h1: "distinct (map student_id (students db_stats))" by (simp add: ex_defs)
  have h2: "distinct (map log_id (session_logs db_stats))" by (simp add: ex_defs)
  show ?thesis
    using h1 h2 statistics_counts[OF h1 h2, of coet_session]
    by (simp add: ex_defs op_defs)
qed

section \<open>Properties of the streaming controller\<close>

lemma stream_step_inv:
  "run_inv st \<Longrightarrow> run_inv (stream_step ext svc session encs ids t st)"
  by (auto simp: run_inv_def stream_step_def split: prod.splits option.splits)

lemma stream_loop_inv:
  "run_inv st \<Longrightarrow> run_inv (stream_loop ext svc session encs ids ts st)"
proof (induction ts arbitrary: st)
  case Nil
  then show ?case by simp
next
  case (Cons t ts)
  from Cons.prems have "run_inv (stream_step ext svc session encs ids t st)"
    by (rule stream_step_inv)
  with Cons.IH Cons.prems show ?case by (simp add: Let_def)
qed

lemma stream_step_no_face:
  "face_encodings ext (tick_frame t) = Some [] \<Longrightarrow>
     stream_step ext svc session encs ids t st = st"
  by (simp add: stream_step_def recognize_face_from_frame_def)

lemma stream_step_seen:
  "recognize_face_from_frame ext svc (tick_frame t) encs ids = (Some sid, c) \<Longrightarrow>
   sid \<in> recognized_students st \<Longrightarrow> stream_step ext svc session encs ids t st = st"
  by (simp add: stream_step_def)

text \<open>
  What \<open>mark_attendance\<close> returns tells whether \<open>SessionLog.mark_present\<close> ran: a log is
  the one \<open>mark_present\<close> saved, and \<open>None\<close> comes with no write but, at most, the
  absent record of \<open>get_or_create\<close>.
\<close>

lemma mark_attendance_result:
  assumes "mark_attendance ext now d session sid c frame = (d', r)"
  shows "case r of
           Some l \<Rightarrow> \<exists>d1 l0. mark_present now d1 l0 c None = (d', l)
         | None \<Rightarrow> session_logs d' = session_logs d \<or>
                    (\<exists>l. session_logs d' = session_logs d @ [l] \<and> log_status l = Absent)"
  using assms
  by (auto simp: mark_attendance_def mark_attendance_try_def Student_get_def get_or_create_def
        Let_def split: option.splits sum.splits prod.splits list.splits exn.splits if_splits)

lemma mark_present_fields:
  "log_status (snd (mark_present now d l c img)) = Present \<and>
   log_recognized_at (snd (mark_present now d l c img)) = Some now \<and>
   log_confidence_score (snd (mark_present now d l c img)) =
     (case c of None \<Rightarrow> log_confidence_score l
      | Some x \<Rightarrow> if x \<noteq> 0 then Some x else log_confidence_score l)"
  by (simp add: mark_present_def Let_def split: option.splits)

text \<open>
  C8. In a run of \<open>process_video_stream\<close> over any finite video source, no identity is
  marked present twice, and the identities marked are exactly those in the run's set of
  recognized students; a frame that shows an identity already in that set changes
  nothing. A frame in which no face is found leaves the state of the run as it is, and
  when the session is active and no key ends the run, the loop goes on with the frames
  that follow.
\<close>

theorem stream_marks_once:
  "distinct (marked (process_video_stream ext svc d session video_source)) \<and>
   set (marked (process_video_stream ext svc d session video_source)) =
     recognized_students (process_video_stream ext svc d session video_source) \<and>
   (recognize_face_from_frame ext svc (tick_frame t') encs' ids' = (Some sid, c) \<and>
    sid \<in> recognized_students st' \<longrightarrow>
      stream_step ext svc session encs' ids' t' st' = st') \<and>
   (face_encodings ext (tick_frame t) = Some [] \<longrightarrow>
      stream_step ext svc session encs ids t st = st \<and>
      (is_active session (tick_now t) \<and> \<not> tick_key_q t \<longrightarrow>
         stream_loop ext svc session encs ids (t # ts) st =
           stream_loop ext svc session encs ids ts st))"
proof -
  have init: "run_inv \<lparr>run_db = d, recognized_students = {}, marked = []\<rparr>"
    by (simp add: run_inv_def)
  have "run_inv (process_video_stream ext svc d session video_source)"
    unfolding process_video_stream_def
    using init stream_loop_inv[OF init]
    by (simp split: prod.splits)
  then show ?thesis
    by (simp add: run_inv_def stream_step_no_face stream_step_seen Let_def)
qed

theorem stream_marks_once_witness:
  "recognize_face_from_frame ext0 init_service (tick_frame (frame_of [0])) [[2], [0]]
     [''S2'', ''S1''] = (Some ''S1'', Some 1) \<and>
   stream_step ext0 init_service coet_session [[2], [0]] [''S2'', ''S1''] (frame_of [0])
     \<lparr>run_db = db_two, recognized_students = {''S1''}, marked = [''S1'']\<rparr>
     = \<lparr>run_db = db_two, recognized_students = {''S1''}, marked = [''S1'']\<rparr> \<and>
   face_encodings ext0 (tick_frame (frame_of [])) = Some [] \<and>
   is_active coet_session (tick_now (frame_of [])) \<and> \<not> tick_key_q (frame_of []) \<and>
   stream_step ext0 init_service coet_session [[2], [0]] [''S2'', ''S1''] (frame_of [])
     \<lparr>run_db = db_two, recognized_students = {}, marked = []\<rparr>
     = \<lparr>run_db = db_two, recognized_students = {}, marked = []\<rparr> \<and>
   marked (process_video_stream ext0 init_service db_two coet_session
            [frame_of [0], frame_of [], frame_of [0]]) = [''S1'']"
  using stream_marks_once[of ext0 init_service db_two coet_session
          "[frame_of [0], frame_of [], frame_of [0]]" "frame_of [0]" "[[2], [0]]"
          "[''S2'', ''S1'']" "''S1''" "Some 1"
          "\<lparr>run_db = db_two, recognized_students = {''S1''}, marked = [''S1'']\<rparr>"
          "frame_of []" "[[2], [0]]" "[''S2'', ''S1'']"
          "\<lparr>run_db = db_two, recognized_students = {}, marked = []\<rparr>" "[]"]
  by (simp add: ex_defs op_defs init_service_def)

text \<open>
  C2 (the code at a failing input). A session of course COET, with an active student of
  course BIT enrolled: the known set that \<open>process_video_stream\<close> loads holds the BIT
  student, where \<open>load_known_faces\<close> with the session's course holds the COET student
  alone; a frame showing the BIT student marks that student present in the COET session.
\<close>

theorem stream_known_set_unscoped:
  "snd (stream_known_faces ext0 db_two coet_session) = [''S2'', ''S1''] \<and>
   snd (load_known_faces ext0 db_two (Some (session_course coet_session))) = [''S1''] \<and>
   Student_get db_two ''S2'' = Inr bob \<and> student_course bob = ''BIT'' \<and>
   session_course coet_session = ''COET'' \<and>
   marked (process_video_stream ext0 init_service db_two coet_session [frame_of [2]]) = [''S2''] \<and>
   map (\<lambda>l. (log_session l, log_student l, log_status l))
     (session_logs (run_db (process_video_stream ext0 init_service db_two coet_session [frame_of [2]])))
     = [(1, ''S2'', Present)]"
  by (simp add: ex_defs op_defs init_service_def)

section \<open>Properties of the attendance records\<close>

lemma filter_key_absent:
  "k \<notin> f ` set xs \<Longrightarrow> filter (\<lambda>l. f l = k) xs = []"
  by (induction xs) auto

lemma filter_key_single:
  "distinct (map f xs) \<Longrightarrow> k \<in> f ` set xs \<Longrightarrow> \<exists>x. filter (\<lambda>l. f l = k) xs = [x]"
proof (induction xs)
  case Nil
  then show ?case by simp
next
  case (Cons a xs)
  show ?case
  proof (cases "f a = k")
    case True
    with Cons.prems have "k \<notin> f ` set xs" by auto
    then have "filter (\<lambda>l. f l = k) xs = []" by (rule filter_key_absent)
    with True show ?thesis by simp
  next
    case False
    with Cons show ?thesis by auto
  qed
qed

lemma get_or_create_filter:
  "filter (\<lambda>l. log_session l = a \<and> log_student l = b) xs = filter (\<lambda>l. log_key l = (a, b)) xs"
  by (simp add: log_key_def)

lemma get_or_create_found:
  assumes "logs_unique d"
    and "(session_id s, student_id st) \<in> log_key ` set (session_logs d)"
  shows "\<exists>l. get_or_create d s st = (d, Inr (l, False))"
proof -
  from filter_key_single[OF assms(1)[unfolded logs_unique_def] assms(2)]
  obtain x where "filter (\<lambda>l. log_key l = (session_id s, student_id st)) (session_logs d) = [x]"
    by blast
  then show ?thesis
    by (simp add: get_or_create_def get_or_create_filter)
qed

lemma get_or_create_new:
  assumes "(session_id s, student_id st) \<notin> log_key ` set (session_logs d)"
  shows "\<exists>l. get_or_create d s st =
           (d\<lparr>session_logs := session_logs d @ [l],
              next_session_log_id := Suc (next_session_log_id d)\<rparr>, Inr (l, True)) \<and>
         log_key l = (session_id s, student_id st) \<and> log_status l = Absent"
proof -
  from filter_key_absent[OF assms]
  have "filter (\<lambda>l. log_session l = session_id s \<and> log_student l = student_id st)
          (session_logs d) = []"
    by (simp add: log_key_def)
  then show ?thesis
    by (simp add: get_or_create_def Let_def log_key_def)
qed

lemma initialize_loop_keys:
  "logs_unique d \<Longrightarrow>
     \<exists>d' logs'. initialize_loop d s sts acc = (d', Inr logs') \<and> logs_unique d' \<and>
       students d' = students d \<and>
       log_key ` set (session_logs d') =
         log_key ` set (session_logs d) \<union> (\<lambda>st. (session_id s, student_id st)) ` set sts"
proof (induction sts arbitrary: d acc)
  case Nil
  then show ?case by simp
next
  case (Cons st sts)
  show ?case
  proof (cases "(session_id s, student_id st) \<in> log_key ` set (session_logs d)")
    case True
    from get_or_create_found[OF Cons.prems True] obtain l where
      g: "get_or_create d s st = (d, Inr (l, False))" by blast
    from Cons.IH[OF Cons.prems, of "acc @ [l]"] obtain d' logs' where
      ih: "initialize_loop d s sts (acc @ [l]) = (d', Inr logs')" "logs_unique d'"
        "students d' = students d"
        "log_key ` set (session_logs d') =
           log_key ` set (session_logs d) \<union> (\<lambda>st. (session_id s, student_id st)) ` set sts"
      by blast
    have "log_key ` set (session_logs d') =
           log_key ` set (session_logs d) \<union>
           (\<lambda>st. (session_id s, student_id st)) ` set (st # sts)"
      unfolding ih(4) using True by (simp add: insert_absorb Un_insert_right)
    with ih(1-3) g show ?thesis by simp
  next
    case False
    from get_or_create_new[OF False] obtain l where
      g: "get_or_create d s st =
           (d\<lparr>session_logs := session_logs d @ [l],
              next_session_log_id := Suc (next_session_log_id d)\<rparr>, Inr (l, True))"
      and k: "log_key l = (session_id s, student_id st)" by blast
    define d1 where "d1 = d\<lparr>session_logs := session_logs d @ [l],
              next_session_log_id := Suc (next_session_log_id d)\<rparr>"
    have u1: "logs_unique d1"
      using Cons.prems False k by (simp add: logs_unique_def d1_def)
    from Cons.IH[OF u1, of "acc @ [l]"] obtain d' logs' where
      ih: "initialize_loop d1 s sts (acc @ [l]) = (d', Inr logs')" "logs_unique d'"
        "students d' = students d1"
        "log_key ` set (session_logs d') =
           log_key ` set (session_logs d1) \<union> (\<lambda>st. (session_id s, student_id st)) ` set sts"
      by blast
    have "log_key ` set (session_logs d') =
           log_key ` set (session_logs d) \<union>
           (\<lambda>st. (session_id s, student_id st)) ` set (st # sts)"
      unfolding ih(4) using k by (simp add: d1_def Un_insert_right)
    moreover have "students d' = students d" using ih(3) by (simp add: d1_def)
    moreover have "initialize_loop d s (st # sts) acc = (d', Inr logs')"
      using g ih(1) by (simp add: d1_def)
    ultimately show ?thesis using ih(2) by blast
  qed
qed

lemma initialize_loop_noop:
  "logs_unique d \<Longrightarrow>
   (\<lambda>st. (session_id s, student_id st)) ` set sts \<subseteq> log_key ` set (session_logs d) \<Longrightarrow>
     fst (initialize_loop d s sts acc) = d"
proof (induction sts arbitrary: acc)
  case Nil
  then show ?case by simp
next
  case (Cons st sts)
  from Cons.prems have "(session_id s, student_id st) \<in> log_key ` set (session_logs d)"
    by auto
  from get_or_create_found[OF Cons.prems(1) this] obtain l where
    g: "get_or_create d s st = (d, Inr (l, False))" by blast
  from Cons.IH[of "acc @ [l]"] Cons.prems g show ?case by simp
qed

text \<open>
  \<open>initialize_session_logs\<close> is idempotent: on a store where (session, student) is
  unique, a second call changes nothing, the pairs stay unique, and the pairs with a
  record are those there before and (session, student) for every active student.
\<close>

lemma initialize_idempotent:
  assumes "logs_unique d"
  shows "fst (initialize_session_logs (fst (initialize_session_logs d s)) s)
           = fst (initialize_session_logs d s) \<and>
         logs_unique (fst (initialize_session_logs d s)) \<and>
         log_key ` set (session_logs (fst (initialize_session_logs d s))) =
           log_key ` set (session_logs d) \<union>
           (\<lambda>st. (session_id s, student_id st)) ` {st \<in> set (students d). student_is_active st}"
proof -
  from initialize_loop_keys[OF assms, of s "filter student_is_active (students d)" "[]"]
  obtain d' logs' where
    r: "initialize_loop d s (filter student_is_active (students d)) [] = (d', Inr logs')"
    and u: "logs_unique d'" and st: "students d' = students d"
    and k: "log_key ` set (session_logs d') =
         log_key ` set (session_logs d) \<union>
         (\<lambda>st. (session_id s, student_id st)) ` set (filter student_is_active (students d))"
    by blast
  have "(\<lambda>x. (session_id s, student_id x)) ` set (filter student_is_active (students d'))
          \<subseteq> log_key ` set (session_logs d')"
    unfolding k st by blast
  with u have "fst (initialize_loop d' s (filter student_is_active (students d')) []) = d'"
    by (rule initialize_loop_noop)
  moreover have "set (filter student_is_active (students d))
                   = {x \<in> set (students d). student_is_active x}" by auto
  ultimately show ?thesis
    using r u k by (simp add: initialize_session_logs_def)
qed


text \<open>
  C4 (the code at a failing input). For a session of course COET,
  \<open>initialize_session_logs\<close> creates an absent record for the active student of course
  BIT as well.
\<close>

theorem initialize_all_courses:
  "map (\<lambda>l. (log_session l, log_student l, log_status l))
     (session_logs (fst (initialize_session_logs db_two coet_session)))
     = [(1, ''S1'', Absent), (1, ''S2'', Absent)] \<and>
   student_course bob = ''BIT'' \<and> session_course coet_session = ''COET''"
  by (simp add: ex_defs op_defs)

text \<open>
  C5 (the code at a failing input). A record marked present at time 5 with confidence
  0.9 and marked again at time 7 with confidence 0 stays present and takes the new
  timestamp, but keeps the confidence 0.9.
\<close>

theorem mark_zero_confidence_kept:
  "mark_attendance ext0 5 db_two coet_session ''S1'' (Some (9 / 10)) None =
     (db_two\<lparr>session_logs :=
         [\<lparr>log_id = 1, log_session = 1, log_student = ''S1'', log_status = Present,
           log_recognized_at = Some 5, log_confidence_score = Some (9 / 10),
           log_recognized_image = None\<rparr>], next_session_log_id := 2\<rparr>,
      Some \<lparr>log_id = 1, log_session = 1, log_student = ''S1'', log_status = Present,
           log_recognized_at = Some 5, log_confidence_score = Some (9 / 10),
           log_recognized_image = None\<rparr>) \<and>
   snd (mark_attendance ext0 7
          (fst (mark_attendance ext0 5 db_two coet_session ''S1'' (Some (9 / 10)) None))
          coet_session ''S1'' (Some 0) None) =
     Some \<lparr>log_id = 1, log_session = 1, log_student = ''S1'', log_status = Present,
           log_recognized_at = Some 7, log_confidence_score = Some (9 / 10),
           log_recognized_image = None\<rparr>"
  by (simp add: ex_defs op_defs)

text \<open>
  C7 (counterexample). A call for an identity that does not exist ends in
  \<open>DoesNotExist\<close>, a call whose frame cannot be encoded ends in another exception, and
  the caller gets the same \<open>None\<close> from both: the result does not tell the kind of
  failure.
\<close>

theorem mark_attendance_untyped:
  "snd (mark_attendance_try ext0 5 db_two coet_session ''ghost'' (Some (9 / 10)) None)
     = Inl DoesNotExist \<and>
   snd (mark_attendance_try ext0 5 db_two coet_session ''S1'' (Some (9 / 10)) (Some [99]))
     = Inl LibraryError \<and>
   snd (mark_attendance ext0 5 db_two coet_session ''ghost'' (Some (9 / 10)) None) = None \<and>
   snd (mark_attendance ext0 5 db_two coet_session ''S1'' (Some (9 / 10)) (Some [99])) = None"
  by (simp add: ex_defs op_defs)

text \<open>
  C7 (as amended). \<open>mark_attendance\<close> for an identity that does not exist returns
  \<open>None\<close> to the caller, the value it returns for every failure; the \<open>try\<close> block ends
  in \<open>DoesNotExist\<close> at the first statement, nothing is tried again, and the store is
  unchanged.
\<close>

theorem mark_attendance_unknown:
  assumes "sid \<notin> student_id ` set (students d)"
  shows "mark_attendance ext now d session sid confidence frame = (d, None) \<and>
         mark_attendance_try ext now d session sid confidence frame = (d, Inl DoesNotExist)"
proof -
  from assms have "Student_find d sid = None"
    by (auto simp: Student_find_def find_None_iff)
  then show ?thesis
    by (simp add: mark_attendance_def mark_attendance_try_def Student_get_def)
qed

theorem mark_attendance_unknown_witness:
  "mark_attendance ext0 5 db_two coet_session ''ghost'' (Some (9 / 10)) None = (db_two, None)"
proof -
  have h: "''ghost'' \<notin> student_id ` set (students db_two)" by (simp add: ex_defs)
  from mark_attendance_unknown[OF h] show ?thesis by simp
qed


end
